theory Spec2Isabelle
  imports Main
begin

section \<open>TOON serialisation of Pydantic models (src/Toon/pydantic\_toon.py)\<close>

text \<open>
  The development embeds \<^verbatim>\<open>ToonSerializer\<close>: the value classifier
  \<^verbatim>\<open>_serialize_value\<close>, the record encoder \<^verbatim>\<open>_serialize_object\<close>, the tabular
  encoder \<^verbatim>\<open>_serialize_list_of_models\<close> and the public entry point
  \<^verbatim>\<open>serialize\<close>. The leading underscore of the private names is dropped, since an
  Isabelle name starts with a letter.
\<close>

subsection \<open>Values\<close>

text \<open>
  A Python value as the \<^verbatim>\<open>isinstance\<close> chain of \<^verbatim>\<open>_serialize_value\<close> tells
  them apart, one constructor per branch, in the order of the chain.
  \<^item> \<open>VInt\<close> is Python's unbounded \<^verbatim>\<open>int\<close>.
  \<^item> \<open>VFloat\<close> and \<open>VDecimal\<close> carry the text that Python's \<^verbatim>\<open>str(value)\<close> returns
    for the number: the rendering of a binary float is the host language's, not this
    repository's.
  \<^item> \<open>VDateTime\<close> and \<open>VDate\<close> carry the text of \<^verbatim>\<open>value.isoformat()\<close>.
  \<^item> \<open>VStr\<close> is a \<^verbatim>\<open>str\<close>; a \<^typ>\<open>char\<close> stands for one code point below 256.
  \<^item> \<open>VModel\<close> is a \<^verbatim>\<open>BaseModel\<close> instance: its fields in declared order, each
    with the attribute's value.
  \<^item> \<open>VList\<close> is a \<^verbatim>\<open>list\<close>.
  \<^item> \<open>VDict\<close> is a \<^verbatim>\<open>dict\<close> in insertion order; a key stands for the text
    \<^verbatim>\<open>f"{key}"\<close> puts into the output.
  \<^item> \<open>VOther\<close> is a value of any other type, carrying the text of \<^verbatim>\<open>str(value)\<close>.

  Python keeps the field names of a model and the keys of a dictionary distinct. The
  datatype does not; a statement that depends on distinct names assumes them.
\<close>

datatype pyval =
    VNone
  | VBool bool
  | VInt int
  | VFloat string
  | VDecimal string
  | VDateTime string
  | VDate string
  | VStr string
  | VModel "(string \<times> pyval) list"
  | VList "pyval list"
  | VDict "(string \<times> pyval) list"
  | VOther string

type_synonym fields = "(string \<times> pyval) list"

text \<open>
  The two \<^verbatim>\<open>raise ValueError(...)\<close> of \<^verbatim>\<open>serialize\<close>: the first with the message
  \<^verbatim>\<open>"All items in list must be Pydantic models"\<close>, the second with
  \<^verbatim>\<open>f"Unsupported type: {type(data)}"\<close>.
\<close>

datatype error = ValueError_items_not_models | ValueError_unsupported_type

abbreviation NL :: char where "NL \<equiv> CHR 0x0A"
abbreviation BACKSLASH :: char where "BACKSLASH \<equiv> CHR 0x5C"
abbreviation DQUOTE :: char where "DQUOTE \<equiv> CHR 0x22"
abbreviation COMMA :: char where "COMMA \<equiv> CHR 0x2C"
abbreviation SPACE :: char where "SPACE \<equiv> CHR 0x20"

subsection \<open>The Python string operations the serializer calls\<close>

text \<open>\<^verbatim>\<open>sep.join(items)\<close>.\<close>

fun join :: "string \<Rightarrow> string list \<Rightarrow> string" where
  "join sep [] = []"
| "join sep [x] = x"
| "join sep (x # y # ys) = x @ sep @ join sep (y # ys)"

text \<open>
  \<^verbatim>\<open>s.replace(old, new)\<close> for a one-character \<^verbatim>\<open>old\<close>, the only form the
  serializer uses: every occurrence is replaced, left to right.
\<close>

fun replace :: "char \<Rightarrow> string \<Rightarrow> string \<Rightarrow> string" where
  "replace old new [] = []"
| "replace old new (c # cs) = (if c = old then new @ replace old new cs else c # replace old new cs)"

text \<open>
  \<^verbatim>\<open>s.strip()\<close> removes leading and trailing whitespace. For code points below 256
  Python's whitespace is TAB, LF, VT, FF, CR, the separators 0x1C to 0x1F, the space,
  NEL (0x85) and the no-break space (0xA0).
\<close>

definition isspace :: "char \<Rightarrow> bool" where
  "isspace c = (of_char c \<in> {9, 10, 11, 12, 13, 28, 29, 30, 31, 32, 133, 160 :: nat})"

definition strip :: "string \<Rightarrow> string" where
  "strip s = rev (dropWhile isspace (rev (dropWhile isspace s)))"

text \<open>
  \<^verbatim>\<open>str(n)\<close> of an \<^verbatim>\<open>int\<close>: decimal digits, a minus sign when negative.
  \<open>digit_char\<close> is only applied to a number below ten.
\<close>

definition digit_char :: "nat \<Rightarrow> char" where
  "digit_char d = ''0123456789'' ! d"

fun digits :: "nat \<Rightarrow> string" where
  "digits n = (if n < 10 then [digit_char n] else digits (n div 10) @ [digit_char (n mod 10)])"

declare digits.simps [simp del]

definition str_int :: "int \<Rightarrow> string" where
  "str_int i = (if i < 0 then CHR ''-'' # digits (nat (- i)) else digits (nat i))"

text \<open>\<^verbatim>\<open>"  " * indent_level\<close>: the empty string when the level is not positive.\<close>

definition indent :: "int \<Rightarrow> string" where
  "indent indent_level = concat (replicate (nat indent_level) ''  '')"

subsection \<open>Pydantic's \<^verbatim>\<open>model_dump()\<close> and the dictionary lookup\<close>

text \<open>
  \<^verbatim>\<open>model.model_dump()\<close> (Pydantic, in its default Python mode) returns the dictionary
  of the model's fields in declared order, with every model nested in a field, a list
  or a dictionary turned into a dictionary as well; other values are kept as they are.
\<close>

fun dump_value :: "pyval \<Rightarrow> pyval" where
  "dump_value (VModel fs) = VDict (map (\<lambda>(k, v). (k, dump_value v)) fs)"
| "dump_value (VList xs) = VList (map dump_value xs)"
| "dump_value (VDict kvs) = VDict (map (\<lambda>(k, v). (k, dump_value v)) kvs)"
| "dump_value v = v"

definition model_dump :: "fields \<Rightarrow> fields" where
  "model_dump fs = map (\<lambda>(k, v). (k, dump_value v)) fs"

text \<open>\<^verbatim>\<open>data.get(field)\<close>: \<^verbatim>\<open>None\<close> when the key is missing.\<close>

definition dict_get :: "fields \<Rightarrow> string \<Rightarrow> pyval" where
  "dict_get data field = (case map_of data field of None \<Rightarrow> VNone | Some v \<Rightarrow> v)"

text \<open>
  \<^verbatim>\<open>all(isinstance(item, BaseModel) for item in value)\<close>, together with the view of the
  list as the \<^verbatim>\<open>List[BaseModel]\<close> that \<^verbatim>\<open>_serialize_list_of_models\<close> declares for
  its parameter: \<open>Some\<close> of the models' fields when every item is a model.
\<close>

fun isBaseModel :: "pyval \<Rightarrow> bool" where
  "isBaseModel (VModel fs) = True"
| "isBaseModel v = False"

fun as_models :: "pyval list \<Rightarrow> fields list option" where
  "as_models [] = Some []"
| "as_models (VModel fs # xs) = map_option ((#) fs) (as_models xs)"
| "as_models (v # xs) = None"

text \<open>
  The quoted form of a string: \<^verbatim>\<open>value.replace('\\', '\\\\').replace('"', '\\"')\<close>
  between two double quotes.
\<close>

definition quoted :: "string \<Rightarrow> string" where
  "quoted s = [DQUOTE]
     @ replace DQUOTE [BACKSLASH, DQUOTE] (replace BACKSLASH [BACKSLASH, BACKSLASH] s)
     @ [DQUOTE]"

subsection \<open>Sizes of values\<close>

text \<open>
  The facts behind the serializer's termination: \<^verbatim>\<open>model_dump\<close> keeps the size of
  a value, and a lookup returns \<^verbatim>\<open>None\<close> or one of the dictionary's values.
\<close>

lemma size_list_map_snd:
  "\<forall>(k, v)\<in>set fs. size (f v) = size v \<Longrightarrow>
   size_list (size_prod (\<lambda>x. 0) size) (map (\<lambda>(k, v). (k, f v)) fs)
   = size_list (size_prod (\<lambda>x. 0) size) fs"
  by (induction fs) auto

lemma size_list_map_same:
  "\<forall>x\<in>set xs. size (f x) = size x \<Longrightarrow>
   size_list size (map f xs) = size_list size xs"
  by (induction xs) auto

lemma size_dump_value: "size (dump_value v) = size v"
proof (induction v rule: dump_value.induct)
  case (1 fs)
  then have "\<forall>(k, v)\<in>set fs. size (dump_value v) = size v" by fastforce
  then show ?case using size_list_map_snd [of fs dump_value] by simp
next
  case (2 xs)
  then have "\<forall>x\<in>set xs. size (dump_value x) = size x" by simp
  then show ?case using size_list_map_same [of xs dump_value] by simp
next
  case (3 kvs)
  then have "\<forall>(k, v)\<in>set kvs. size (dump_value v) = size v" by fastforce
  then show ?case using size_list_map_snd [of kvs dump_value] by simp
qed simp_all

lemma size_field_value: "(k, v) \<in> set fs \<Longrightarrow> size v < Suc (size_list (size_prod (\<lambda>x. 0) size) fs)"
  by (induction fs) auto

lemma size_dict_get_dump:
  "size (dict_get (model_dump m) f) < Suc (size_list (size_prod (\<lambda>x. 0) size) m)"
proof (cases "map_of (model_dump m) f")
  case None
  then show ?thesis by (simp add: dict_get_def)
next
  case (Some v)
  then have "(f, v) \<in> set (model_dump m)" by (rule map_of_SomeD)
  then obtain w where "(f, w) \<in> set m" and "v = dump_value w"
    by (auto simp: model_dump_def)
  then show ?thesis
    using Some size_field_value [of f w m] by (simp add: dict_get_def size_dump_value)
qed

lemma size_list_member: "x \<in> set xs \<Longrightarrow> f x \<le> size_list f xs"
  by (induction xs) auto

lemma as_models_Some: "as_models xs = Some ms \<Longrightarrow> xs = map VModel ms"
proof (induction xs arbitrary: ms rule: as_models.induct)
qed auto

lemma size_as_models:
  "as_models xs = Some ms \<Longrightarrow>
   size_list (\<lambda>m. Suc (size_list (size_prod (\<lambda>x. 0) size) m)) ms = size_list size xs"
  by (induction xs arbitrary: ms rule: as_models.induct) auto

lemma term_list_item: "x \<in> set xs \<Longrightarrow> 2 * size x < Suc (Suc (2 * size_list size xs))"
  using size_list_member [of x xs size] by simp

lemma term_field:
  "x \<in> set fs \<Longrightarrow> (k, v) = x \<Longrightarrow>
   2 * size v < Suc (Suc (2 * size_list (size_prod (\<lambda>x. 0) size) fs))"
  using size_field_value [of k v fs] by simp

lemma term_field_obj:
  "(k, v) \<in> set fs \<Longrightarrow> 2 * size v < Suc (2 * size_list (size_prod (\<lambda>x. 0) size) fs)"
  using size_field_value [of k v fs] by simp

subsection \<open>The serializer\<close>

text \<open>
  The three static methods call each other, so they are one mutually recursive
  function. \<^verbatim>\<open>_serialize_object\<close> reads \<^verbatim>\<open>getattr(obj, field_name)\<close> for every
  name of \<^verbatim>\<open>obj.model_fields\<close>, which are the pairs of the model's field list.
\<close>

function (sequential)
  serialize_value :: "pyval \<Rightarrow> int \<Rightarrow> string" and
  serialize_object :: "fields \<Rightarrow> int \<Rightarrow> string" and
  serialize_list_of_models :: "fields list \<Rightarrow> int \<Rightarrow> string"
where
  "serialize_value VNone indent_level = ''null''"
| "serialize_value (VBool b) indent_level = (if b then ''true'' else ''false'')"
| "serialize_value (VInt i) indent_level = str_int i"
| "serialize_value (VFloat s) indent_level = s"
| "serialize_value (VDecimal s) indent_level = s"
| "serialize_value (VDateTime s) indent_level = s"
| "serialize_value (VDate s) indent_level = s"
| "serialize_value (VStr s) indent_level =
     (if COMMA \<in> set s \<or> NL \<in> set s \<or> strip s \<noteq> s
      then (let escaped = replace DQUOTE [BACKSLASH, DQUOTE]
                            (replace BACKSLASH [BACKSLASH, BACKSLASH] s)
            in [DQUOTE] @ escaped @ [DQUOTE])
      else s)"
| "serialize_value (VModel fs) indent_level = serialize_object fs indent_level"
| "serialize_value (VList xs) indent_level =
     (if xs = [] then ''[]''
      else (case as_models xs of
              Some models \<Rightarrow> [NL] @ serialize_list_of_models models indent_level
            | None \<Rightarrow> ''['' @ join '','' (map (\<lambda>item. serialize_value item 0) xs) @ '']''))"
| "serialize_value (VDict kvs) indent_level =
     join [NL] (concat (map (\<lambda>(key, val).
        (let serialized_val = serialize_value val (indent_level + 1) in
         if NL \<in> set serialized_val
         then [indent indent_level @ ''  '' @ key @ '':'',
               indent indent_level @ ''    '' @ serialized_val]
         else [indent indent_level @ ''  '' @ key @ '': '' @ serialized_val])) kvs))"
| "serialize_value (VOther s) indent_level = s"
| "serialize_object fs indent_level =
     join [NL] (map (\<lambda>(field_name, val).
        (let serialized_val = serialize_value val (indent_level + 1) in
         if NL \<in> set serialized_val
         then indent indent_level @ field_name @ '':'' @ serialized_val
         else indent indent_level @ field_name @ '': '' @ serialized_val)) fs)"
| "serialize_list_of_models [] indent_level = ''[]''"
| "serialize_list_of_models (first_model # rest) indent_level =
     (let models = first_model # rest;
          fields = map fst (model_dump first_model);
          header = indent indent_level @ ''['' @ str_int (int (length models)) @ '']{''
                   @ join '','' fields @ ''}:'';
          rows = map (\<lambda>model.
                   (let data = model_dump model;
                        vals = map (\<lambda>field. serialize_value (dict_get data field) 0) fields
                    in indent indent_level @ ''  '' @ join '','' vals)) models
      in join [NL] (header # rows))"
  by pat_completeness auto

text \<open>Every call is on a value strictly inside the argument.\<close>

termination
proof (relation "measure (\<lambda>a. case a of
    Inl (v, l) \<Rightarrow> 2 * size v + 1
  | Inr (Inl (fs, l)) \<Rightarrow> 2 * Suc (size_list (size_prod (\<lambda>x. 0) size) fs)
  | Inr (Inr (ms, l)) \<Rightarrow> 2 * Suc (size_list (\<lambda>m. Suc (size_list (size_prod (\<lambda>x. 0) size) m)) ms))",
    goal_cases)
  case 1
  show ?case by simp
next
  case 2
  show ?case by simp
next
  case 3
  then show ?case by (simp add: term_list_item)
next
  case 4
  then show ?case by (simp add: size_as_models)
next
  case 5
  then show ?case by (auto intro: term_field)
next
  case 6
  then show ?case by (auto intro: term_field_obj)
next
  case (7 first_model rest indent_level models fields header model data field)
  have "Suc (size_list (size_prod (\<lambda>x. 0) size) model)
      \<le> size_list (\<lambda>m. Suc (size_list (size_prod (\<lambda>x. 0) size) m)) (first_model # rest)"
    using 7 size_list_member [of model "first_model # rest"
        "\<lambda>m. Suc (size_list (size_prod (\<lambda>x. 0) size) m)"] by simp
  then show ?case
    using 7 size_dict_get_dump [of model field] by simp
qed

text \<open>
  \<^verbatim>\<open>serialize(data, indent_level=0)\<close>, the public entry point: \<open>Inl\<close> is the raised
  \<^verbatim>\<open>ValueError\<close>.
\<close>

fun serialize :: "pyval \<Rightarrow> int \<Rightarrow> error + string" where
  "serialize (VList xs) indent_level =
     (case as_models xs of
        Some models \<Rightarrow> Inr (serialize_list_of_models models indent_level)
      | None \<Rightarrow> Inl ValueError_items_not_models)"
| "serialize (VModel fs) indent_level = Inr (serialize_object fs indent_level)"
| "serialize v indent_level = Inl ValueError_unsupported_type"

subsection \<open>Reading the output\<close>

text \<open>\<^verbatim>\<open>isinstance(data, list)\<close>, the first test of \<^verbatim>\<open>serialize\<close>.\<close>

fun isList :: "pyval \<Rightarrow> bool" where
  "isList (VList xs) = True"
| "isList v = False"

text \<open>
  The physical lines of an output text, as \<^verbatim>\<open>text.split("\n")\<close> gives them: the
  claims speak of the lines a reader of the output sees.
\<close>

fun physical_lines :: "string \<Rightarrow> string list" where
  "physical_lines [] = [[]]"
| "physical_lines (c # cs) =
     (if c = NL then [] # physical_lines cs
      else (case physical_lines cs of [] \<Rightarrow> [[c]] | ln # lns \<Rightarrow> (c # ln) # lns))"

text \<open>A line is indented to level \<open>l\<close> when it begins with the \<open>2 * l\<close> spaces of that level.\<close>

definition indented :: "int \<Rightarrow> string \<Rightarrow> bool" where
  "indented l ln = (take (length (indent l)) ln = indent l)"

definition all_indented :: "int \<Rightarrow> string \<Rightarrow> bool" where
  "all_indented l s = list_all (indented l) (physical_lines s)"

text \<open>
  The lines after the first: the first line of an encoded child continues the line of
  its field's name.
\<close>

definition rest_indented :: "int \<Rightarrow> string \<Rightarrow> bool" where
  "rest_indented l s = list_all (indented l) (tl (physical_lines s))"

text \<open>
  The inputs in which every newline of the output is one that the encoder puts between
  two entries: no text, name or key holds a newline, and the cells of a row and the
  items of a flat list are encoded on one line.
\<close>

fun no_line_breaks :: "pyval \<Rightarrow> bool" where
  "no_line_breaks (VFloat s) = (NL \<notin> set s)"
| "no_line_breaks (VDecimal s) = (NL \<notin> set s)"
| "no_line_breaks (VDateTime s) = (NL \<notin> set s)"
| "no_line_breaks (VDate s) = (NL \<notin> set s)"
| "no_line_breaks (VStr s) = (NL \<notin> set s)"
| "no_line_breaks (VOther s) = (NL \<notin> set s)"
| "no_line_breaks (VModel fs) = list_all (\<lambda>(name, v). NL \<notin> set name \<and> no_line_breaks v) fs"
| "no_line_breaks (VDict kvs) = list_all (\<lambda>(key, v). NL \<notin> set key \<and> no_line_breaks v) kvs"
| "no_line_breaks (VList xs) =
     (case as_models xs of
        Some models \<Rightarrow>
          list_all (list_all (\<lambda>(name, v).
            NL \<notin> set name \<and> NL \<notin> set (serialize_value (dump_value v) 0))) models
      | None \<Rightarrow> list_all (\<lambda>item. NL \<notin> set (serialize_value item 0)) xs)"
| "no_line_breaks v = True"

section \<open>Auxiliary facts\<close>

subsection \<open>Evaluation on concrete inputs\<close>

lemma digits_small: "n < 10 \<Longrightarrow> digits n = [digit_char n]"
  by (simp add: digits.simps [of n])

lemma digits_big: "\<not> n < 10 \<Longrightarrow> digits n = digits (n div 10) @ [digit_char (n mod 10)]"
  by (simp add: digits.simps [of n])

lemma indent_nonpos: "l \<le> 0 \<Longrightarrow> indent l = []"
  by (simp add: indent_def)

lemma indent_pos: "0 < l \<Longrightarrow> indent l = ''  '' @ indent (l - 1)"
proof -
  assume "0 < l"
  then have "nat l = Suc (nat (l - 1))" by simp
  then show ?thesis by (simp add: indent_def)
qed

lemmas eval_defs = str_int_def digits_small digits_big digit_char_def strip_def isspace_def
  model_dump_def dict_get_def indent_nonpos indent_pos

subsection \<open>The quoted form of a string\<close>

lemma replace_concat:
  "replace old new s = concat (map (\<lambda>c. if c = old then new else [c]) s)"
  by (induction s) simp_all

lemma length_replace: "length s \<le> length (replace old [a, b] s)"
  by (induction s) simp_all

lemma count_replace:
  "c \<noteq> old \<Longrightarrow> c \<notin> set new \<Longrightarrow> count_list (replace old new s) c = count_list s c"
  by (induction s) (simp_all add: count_list_0_iff)

lemma quoted_neq: "quoted s \<noteq> s"
proof
  assume "quoted s = s"
  then have "length (quoted s) = length s" by simp
  moreover have "length s
      \<le> length (replace DQUOTE [BACKSLASH, DQUOTE] (replace BACKSLASH [BACKSLASH, BACKSLASH] s))"
    using length_replace [of s BACKSLASH BACKSLASH BACKSLASH]
      length_replace [of "replace BACKSLASH [BACKSLASH, BACKSLASH] s" DQUOTE BACKSLASH DQUOTE]
    by linarith
  ultimately show False by (simp add: quoted_def)
qed

lemma count_quoted:
  "c \<noteq> DQUOTE \<Longrightarrow> c \<noteq> BACKSLASH \<Longrightarrow> count_list (quoted s) c = count_list s c"
  by (simp add: quoted_def count_replace)

lemma serialize_value_VStr:
  "serialize_value (VStr s) l
   = (if COMMA \<in> set s \<or> NL \<in> set s \<or> strip s \<noteq> s then quoted s else s)"
  by (simp add: quoted_def)

lemma quoted_concat:
  "quoted s = [DQUOTE]
     @ concat (map (\<lambda>c. if c = DQUOTE then [BACKSLASH, DQUOTE] else [c])
         (concat (map (\<lambda>c. if c = BACKSLASH then [BACKSLASH, BACKSLASH] else [c]) s)))
     @ [DQUOTE]"
  by (simp add: quoted_def replace_concat)

subsection \<open>Lists of models\<close>

lemma as_models_map_VModel: "as_models (map VModel ms) = Some ms"
  by (induction ms) simp_all

lemma as_models_None_iff: "as_models xs = None \<longleftrightarrow> \<not> list_all isBaseModel xs"
  by (induction xs rule: as_models.induct) simp_all

lemma serialize_models:
  "serialize (VList (map VModel ms)) l = Inr (serialize_list_of_models ms l)"
  by (simp add: as_models_map_VModel)

subsection \<open>Physical lines\<close>

lemma physical_lines_not_Nil: "physical_lines s \<noteq> []"
  by (induction s) (simp_all split: list.splits)

lemma length_physical_lines: "length (physical_lines s) = Suc (count_list s NL)"
  by (induction s) (auto split: list.splits simp: physical_lines_not_Nil)

lemma physical_lines_single: "NL \<notin> set s \<Longrightarrow> physical_lines s = [s]"
  by (induction s) auto

lemma physical_lines_append_NL:
  "physical_lines (a @ NL # b) = physical_lines a @ physical_lines b"
proof (induction a)
  case Nil
  show ?case
  proof (cases "physical_lines b")
    case Nil
    then show ?thesis using physical_lines_not_Nil [of b] by simp
  next
    case (Cons ln lns)
    then show ?thesis by simp
  qed
next
  case (Cons c a)
  show ?case
  proof (cases "c = NL")
    case True
    then show ?thesis using Cons.IH by simp
  next
    case False
    obtain ln lns where a: "physical_lines a = ln # lns"
      using physical_lines_not_Nil [of a] by (cases "physical_lines a") auto
    with False Cons.IH show ?thesis by simp
  qed
qed

lemma physical_lines_join:
  "xs \<noteq> [] \<Longrightarrow> physical_lines (join [NL] xs) = concat (map physical_lines xs)"
proof (induction "[NL]" xs rule: join.induct)
  case (3 x y ys)
  have "physical_lines (join [NL] (x # y # ys)) = physical_lines (x @ NL # join [NL] (y # ys))"
    by simp
  also have "\<dots> = physical_lines x @ physical_lines (join [NL] (y # ys))"
    by (rule physical_lines_append_NL)
  finally show ?case using 3 by simp
qed simp_all

subsection \<open>The rows of the tabular encoding\<close>

lemma fst_model_dump: "map fst (model_dump m) = map fst m"
  by (induction m) (auto simp: model_dump_def)

lemma map_of_model_dump: "map_of (model_dump m) f = map_option dump_value (map_of m f)"
  by (induction m) (auto simp: model_dump_def)

lemma dict_get_model_dump:
  "dict_get (model_dump m) f = (case map_of m f of None \<Rightarrow> VNone | Some v \<Rightarrow> dump_value v)"
  by (simp add: dict_get_def map_of_model_dump split: option.splits)

lemma serialize_cell:
  "serialize_value (dict_get (model_dump m) f) 0
   = (case map_of m f of None \<Rightarrow> ''null'' | Some v \<Rightarrow> serialize_value (dump_value v) 0)"
  by (simp add: dict_get_model_dump split: option.splits)

lemma tabular_Cons:
  "serialize_list_of_models (first_model # rest) l
   = join [NL]
       ((indent l @ ''['' @ str_int (int (Suc (length rest))) @ '']{''
           @ join '','' (map fst first_model) @ ''}:'')
        # map (\<lambda>m. indent l @ ''  '' @ join '',''
                 (map (\<lambda>f. case map_of m f of None \<Rightarrow> ''null''
                            | Some v \<Rightarrow> serialize_value (dump_value v) 0)
                    (map fst first_model)))
            (first_model # rest))"
  by (simp add: Let_def fst_model_dump serialize_cell del: serialize_value.simps)

lemma map_of_filter_keys:
  "f \<in> S \<Longrightarrow> map_of (filter (\<lambda>(k, v). k \<in> S) m) f = map_of m f"
  by (induction m) auto

lemma cells_in_order:
  "distinct (map fst m) \<Longrightarrow>
   map (\<lambda>f. case map_of m f of None \<Rightarrow> d | Some v \<Rightarrow> g v) (map fst m) = map (\<lambda>(k, v). g v) m"
proof -
  assume d: "distinct (map fst m)"
  have "\<And>k v. (k, v) \<in> set m \<Longrightarrow> map_of m k = Some v"
    using d by simp
  then show ?thesis by (auto simp: comp_def)
qed

lemma row_filter:
  "map (\<lambda>f. case map_of (filter (\<lambda>(k, v). k \<in> set fs) m) f of None \<Rightarrow> d | Some v \<Rightarrow> g v) fs
   = map (\<lambda>f. case map_of m f of None \<Rightarrow> d | Some v \<Rightarrow> g v) fs"
  by (rule map_cong) (simp_all add: map_of_filter_keys)

lemma concat_replicate_Suc: "concat (replicate (Suc n) x) = concat (replicate n x) @ x"
  by (induction n) simp_all

lemma indent_Suc: "0 \<le> l \<Longrightarrow> indent (l + 1) = indent l @ ''  ''"
proof -
  assume "0 \<le> l"
  then have "nat (l + 1) = Suc (nat l)" by simp
  then show ?thesis
    unfolding indent_def by (simp only: concat_replicate_Suc)
qed

subsection \<open>Texts without a newline\<close>

lemma set_digits: "set (digits n) \<subseteq> set ''0123456789''"
proof (induction n rule: digits.induct)
  case (1 n)
  have d: "\<And>k. k < 10 \<Longrightarrow> digit_char k \<in> set ''0123456789''"
    unfolding digit_char_def by (rule nth_mem) simp
  show ?case
  proof (cases "n < 10")
    case True
    then show ?thesis using d [of n] by (simp add: digits_small)
  next
    case False
    have "n mod 10 < 10" by simp
    then have "digit_char (n mod 10) \<in> set ''0123456789''" by (rule d)
    with False 1 show ?thesis by (simp add: digits_big)
  qed
qed

lemma NL_str_int: "NL \<notin> set (str_int i)"
  using set_digits [of "nat i"] set_digits [of "nat (- i)"]
  by (auto simp: str_int_def)

lemma COMMA_str_int: "COMMA \<notin> set (str_int i)"
  using set_digits [of "nat i"] set_digits [of "nat (- i)"]
  by (auto simp: str_int_def)

lemma set_indent: "set (indent l) \<subseteq> {SPACE}"
  by (auto simp: indent_def)

lemma NL_indent: "NL \<notin> set (indent l)"
  using set_indent [of l] by auto

lemma set_join: "set (join sep xs) \<subseteq> set sep \<union> \<Union> (set ` set xs)"
  by (induction sep xs rule: join.induct) auto

lemma NL_join_comma: "\<forall>x\<in>set xs. NL \<notin> set x \<Longrightarrow> NL \<notin> set (join '','' xs)"
  using set_join [of "'',''" xs] by auto

lemma physical_lines_join_single:
  "xs \<noteq> [] \<Longrightarrow> \<forall>x\<in>set xs. NL \<notin> set x \<Longrightarrow> physical_lines (join [NL] xs) = xs"
proof -
  assume ne: "xs \<noteq> []" and nl: "\<forall>x\<in>set xs. NL \<notin> set x"
  have "concat (map physical_lines xs) = xs"
    using nl by (induction xs) (simp_all add: physical_lines_single)
  with ne show ?thesis by (simp add: physical_lines_join)
qed

subsection \<open>Indentation of lines\<close>

lemma indented_iff: "indented l ln \<longleftrightarrow> (\<exists>r. ln = indent l @ r)"
  unfolding indented_def by (metis append_eq_conv_conj append_take_drop_id)

lemma indented_append: "indented l a \<Longrightarrow> indented l (a @ b)"
  unfolding indented_iff by auto

lemma indented_down: "0 \<le> l \<Longrightarrow> indented (l + 1) ln \<Longrightarrow> indented l ln"
  unfolding indented_iff by (auto simp: indent_Suc)

lemma physical_lines_prefix:
  "NL \<notin> set a \<Longrightarrow>
   physical_lines (a @ b) = (a @ hd (physical_lines b)) # tl (physical_lines b)"
proof (induction a)
  case Nil
  then show ?case using physical_lines_not_Nil [of b] by simp
next
  case (Cons c a)
  then show ?case by auto
qed

lemma all_indented_prefix:
  "NL \<notin> set a \<Longrightarrow> indented l a \<Longrightarrow> rest_indented l b \<Longrightarrow> all_indented l (a @ b)"
  by (simp add: all_indented_def rest_indented_def physical_lines_prefix indented_append)

lemma all_indented_single: "NL \<notin> set s \<Longrightarrow> indented l s \<Longrightarrow> all_indented l s"
  by (simp add: all_indented_def physical_lines_single)

lemma rest_indented_single: "NL \<notin> set s \<Longrightarrow> rest_indented l s"
  by (simp add: rest_indented_def physical_lines_single)

lemma all_indented_rest: "all_indented l s \<Longrightarrow> rest_indented l s"
  unfolding all_indented_def rest_indented_def
  by (cases "physical_lines s") simp_all

lemma all_indented_down: "0 \<le> l \<Longrightarrow> all_indented (l + 1) s \<Longrightarrow> all_indented l s"
  unfolding all_indented_def list_all_iff using indented_down by blast

lemma rest_indented_down: "0 \<le> l \<Longrightarrow> rest_indented (l + 1) s \<Longrightarrow> rest_indented l s"
  unfolding rest_indented_def list_all_iff using indented_down by blast

lemma all_indented_join:
  "xs \<noteq> [] \<Longrightarrow> \<forall>x\<in>set xs. all_indented l x \<Longrightarrow> all_indented l (join [NL] xs)"
  by (simp add: all_indented_def physical_lines_join list_all_iff)

lemma rest_indented_NL: "all_indented l s \<Longrightarrow> rest_indented l (NL # s)"
  by (simp add: all_indented_def rest_indented_def)

lemma NL_quoted: "NL \<notin> set s \<Longrightarrow> NL \<notin> set (quoted s)"
  using count_quoted [of NL s] by (simp add: count_list_0_iff)

subsection \<open>Indentation of the three kinds of block\<close>

lemma record_block_indented:
  assumes "0 \<le> l" and "fs \<noteq> []"
    and "\<forall>(name, v)\<in>set fs. NL \<notin> set name \<and> rest_indented (l + 1) (serialize_value v (l + 1))"
  shows "all_indented l (serialize_object fs l)"
proof -
  let ?entry = "\<lambda>(field_name, val).
        (let serialized_val = serialize_value val (l + 1) in
         if NL \<in> set serialized_val
         then indent l @ field_name @ '':'' @ serialized_val
         else indent l @ field_name @ '': '' @ serialized_val)"
  have "all_indented l (?entry x)" if "x \<in> set fs" for x
  proof -
    obtain name v where x: "x = (name, v)" by (cases x)
    have name: "NL \<notin> set name" and "rest_indented (l + 1) (serialize_value v (l + 1))"
      using assms(3) that x by auto
    then have child: "rest_indented l (serialize_value v (l + 1))"
      using assms(1) by (simp add: rest_indented_down)
    have 1: "all_indented l ((indent l @ name @ '':'') @ serialize_value v (l + 1))"
      using name NL_indent [of l] child
      by (intro all_indented_prefix) (simp_all add: indented_iff)
    have 2: "all_indented l ((indent l @ name @ '': '') @ serialize_value v (l + 1))"
      using name NL_indent [of l] child
      by (intro all_indented_prefix) (simp_all add: indented_iff)
    from 1 2 show ?thesis by (simp add: x Let_def)
  qed
  then have "all_indented l (join [NL] (map ?entry fs))"
    using assms(2) by (intro all_indented_join) auto
  then show ?thesis by simp
qed

lemma mapping_block_indented:
  assumes "0 \<le> l" and "kvs \<noteq> []"
    and "\<forall>(key, v)\<in>set kvs. NL \<notin> set key \<and> rest_indented (l + 1) (serialize_value v (l + 1))"
  shows "all_indented (l + 1) (serialize_value (VDict kvs) l)"
proof -
  let ?items = "\<lambda>(key, val).
        (let serialized_val = serialize_value val (l + 1) in
         if NL \<in> set serialized_val
         then [indent l @ ''  '' @ key @ '':'',
               indent l @ ''    '' @ serialized_val]
         else [indent l @ ''  '' @ key @ '': '' @ serialized_val])"
  have ind: "indent (l + 1) = indent l @ ''  ''"
    using assms(1) by (rule indent_Suc)
  have items: "?items x \<noteq> [] \<and> (\<forall>y\<in>set (?items x). all_indented (l + 1) y)"
    if "x \<in> set kvs" for x
  proof -
    obtain key v where x: "x = (key, v)" by (cases x)
    have key: "NL \<notin> set key" and child: "rest_indented (l + 1) (serialize_value v (l + 1))"
      using assms(3) that x by auto
    have 1: "all_indented (l + 1) (indent l @ ''  '' @ key @ '':'')"
      using key NL_indent [of l] by (intro all_indented_single) (simp_all add: indented_iff ind)
    have 2: "all_indented (l + 1) ((indent l @ ''    '') @ serialize_value v (l + 1))"
      using NL_indent [of l] child
      by (intro all_indented_prefix) (simp_all add: indented_iff ind)
    have 3: "NL \<notin> set (serialize_value v (l + 1)) \<Longrightarrow>
        all_indented (l + 1) (indent l @ ''  '' @ key @ '': '' @ serialize_value v (l + 1))"
      using key NL_indent [of l] by (intro all_indented_single) (simp_all add: indented_iff ind)
    from 1 2 3 show ?thesis by (simp add: x Let_def)
  qed
  have "concat (map ?items kvs) \<noteq> []"
  proof -
    obtain x rest where "kvs = x # rest" using assms(2) by (cases kvs) auto
    then show ?thesis using items [of x] by simp
  qed
  moreover have "\<forall>y\<in>set (concat (map ?items kvs)). all_indented (l + 1) y"
    using items by auto
  ultimately have "all_indented (l + 1) (join [NL] (concat (map ?items kvs)))"
    by (rule all_indented_join)
  then show ?thesis by simp
qed

lemma tabular_block_lines:
  assumes "ms \<noteq> []"
    and "list_all (list_all (\<lambda>(name, v).
            NL \<notin> set name \<and> NL \<notin> set (serialize_value (dump_value v) 0))) ms"
  shows "physical_lines (serialize_list_of_models ms l)
     = (indent l @ ''['' @ str_int (int (length ms)) @ '']{''
           @ join '','' (map fst (hd ms)) @ ''}:'')
       # map (\<lambda>m. indent l @ ''  '' @ join '',''
                 (map (\<lambda>f. case map_of m f of None \<Rightarrow> ''null''
                            | Some v \<Rightarrow> serialize_value (dump_value v) 0)
                    (map fst (hd ms)))) ms"
proof -
  obtain first_model rest where ms: "ms = first_model # rest"
    using assms(1) by (cases ms) auto
  let ?cell = "\<lambda>m f. case map_of m f of None \<Rightarrow> ''null''
                            | Some v \<Rightarrow> serialize_value (dump_value v) 0"
  let ?header = "indent l @ ''['' @ str_int (int (Suc (length rest))) @ '']{''
           @ join '','' (map fst first_model) @ ''}:''"
  let ?row = "\<lambda>m. indent l @ ''  '' @ join '','' (map (?cell m) (map fst first_model))"
  have good: "\<forall>(name, v)\<in>set m. NL \<notin> set name \<and> NL \<notin> set (serialize_value (dump_value v) 0)"
    if "m \<in> set ms" for m
    using assms(2) that by (auto simp: list_all_iff)
  have "\<forall>f\<in>set (map fst first_model). NL \<notin> set f"
    using good [of first_model] ms by auto
  then have "NL \<notin> set (join '','' (map fst first_model))" by (rule NL_join_comma)
  then have h: "NL \<notin> set ?header"
    using NL_indent [of l] NL_str_int [of "int (Suc (length rest))"] by simp
  have cell: "NL \<notin> set (?cell m f)" if "m \<in> set ms" for m f
  proof (cases "map_of m f")
    case None
    then show ?thesis by simp
  next
    case (Some v)
    then have "(f, v) \<in> set m" by (rule map_of_SomeD)
    then show ?thesis using good [OF that] Some by auto
  qed
  have r: "NL \<notin> set (?row m)" if "m \<in> set ms" for m
  proof -
    have "\<forall>x\<in>set (map (?cell m) (map fst first_model)). NL \<notin> set x"
      using cell [OF that] by auto
    then have "NL \<notin> set (join '','' (map (?cell m) (map fst first_model)))"
      by (rule NL_join_comma)
    then show ?thesis using NL_indent [of l] by simp
  qed
  have "\<forall>x\<in>set (?header # map ?row ms). NL \<notin> set x"
    using h r by auto
  then have "physical_lines (join [NL] (?header # map ?row ms)) = ?header # map ?row ms"
    by (intro physical_lines_join_single) simp_all
  then show ?thesis
    unfolding ms using tabular_Cons [of first_model rest l]
    by (simp del: serialize_list_of_models.simps)
qed

lemma tabular_block_indented:
  assumes "0 \<le> l" and "ms \<noteq> []"
    and "list_all (list_all (\<lambda>(name, v).
            NL \<notin> set name \<and> NL \<notin> set (serialize_value (dump_value v) 0))) ms"
  shows "indented l (hd (physical_lines (serialize_list_of_models ms l)))
     \<and> list_all (indented (l + 1)) (tl (physical_lines (serialize_list_of_models ms l)))
     \<and> length (tl (physical_lines (serialize_list_of_models ms l))) = length ms"
  unfolding tabular_block_lines [OF assms(2,3)]
  using assms(1) by (simp add: indented_iff indent_Suc list_all_iff)

lemma later_lines_indented:
  "no_line_breaks v \<Longrightarrow> 0 \<le> l \<Longrightarrow> rest_indented l (serialize_value v l)"
proof (induction v arbitrary: l)
  case (VInt i)
  show ?case using NL_str_int [of i] by (simp add: rest_indented_single)
next
  case (VStr s)
  then have "NL \<notin> set (serialize_value (VStr s) l)"
    using NL_quoted [of s] by (simp add: serialize_value_VStr del: serialize_value.simps)
  then show ?case by (rule rest_indented_single)
next
  case (VModel fs)
  show ?case
  proof (cases "fs = []")
    case True
    then show ?thesis by (simp add: rest_indented_def)
  next
    case False
    have "\<forall>(name, v)\<in>set fs.
        NL \<notin> set name \<and> rest_indented (l + 1) (serialize_value v (l + 1))"
    proof (clarify, intro conjI)
      fix name v assume in_fs: "(name, v) \<in> set fs"
      then show "NL \<notin> set name" using VModel.prems(1) by (auto simp: list_all_iff)
      have "no_line_breaks v" using in_fs VModel.prems(1) by (auto simp: list_all_iff)
      moreover have "v \<in> Basic_BNFs.snds (name, v)" by simp
      ultimately show "rest_indented (l + 1) (serialize_value v (l + 1))"
        using VModel.IH [OF in_fs] VModel.prems(2) by simp
    qed
    with VModel.prems(2) False have "all_indented l (serialize_object fs l)"
      by (rule record_block_indented)
    then show ?thesis by (simp add: all_indented_rest)
  qed
next
  case (VDict kvs)
  show ?case
  proof (cases "kvs = []")
    case True
    then show ?thesis by (simp add: rest_indented_def)
  next
    case False
    have "\<forall>(key, v)\<in>set kvs.
        NL \<notin> set key \<and> rest_indented (l + 1) (serialize_value v (l + 1))"
    proof (clarify, intro conjI)
      fix key v assume in_kvs: "(key, v) \<in> set kvs"
      then show "NL \<notin> set key" using VDict.prems(1) by (auto simp: list_all_iff)
      have "no_line_breaks v" using in_kvs VDict.prems(1) by (auto simp: list_all_iff)
      moreover have "v \<in> Basic_BNFs.snds (key, v)" by simp
      ultimately show "rest_indented (l + 1) (serialize_value v (l + 1))"
        using VDict.IH [OF in_kvs] VDict.prems(2) by simp
    qed
    with VDict.prems(2) False have "all_indented (l + 1) (serialize_value (VDict kvs) l)"
      by (rule mapping_block_indented)
    then have "all_indented l (serialize_value (VDict kvs) l)"
      using VDict.prems(2) by (simp only: all_indented_down)
    then show ?thesis by (rule all_indented_rest)
  qed
next
  case (VList xs)
  show ?case
  proof (cases "xs = []")
    case True
    then show ?thesis by (simp add: rest_indented_single)
  next
    case False
    show ?thesis
    proof (cases "as_models xs")
      case None
      then have "\<forall>x\<in>set (map (\<lambda>item. serialize_value item 0) xs). NL \<notin> set x"
        using VList.prems(1) by (simp add: list_all_iff)
      then have "NL \<notin> set (join '','' (map (\<lambda>item. serialize_value item 0) xs))"
        by (rule NL_join_comma)
      then have "NL \<notin> set (serialize_value (VList xs) l)"
        using None False by simp
      then show ?thesis by (rule rest_indented_single)
    next
      case (Some models)
      then have ne: "models \<noteq> []" using False as_models_Some [OF Some] by auto
      have cells: "list_all (list_all (\<lambda>(name, v).
            NL \<notin> set name \<and> NL \<notin> set (serialize_value (dump_value v) 0))) models"
        using VList.prems(1) Some by simp
      have t: "indented l (hd (physical_lines (serialize_list_of_models models l)))
          \<and> list_all (indented (l + 1)) (tl (physical_lines (serialize_list_of_models models l)))"
        using tabular_block_indented [OF VList.prems(2) ne cells] by simp
      then have "list_all (indented l) (tl (physical_lines (serialize_list_of_models models l)))"
        using VList.prems(2) indented_down unfolding list_all_iff by blast
      with t have "all_indented l (serialize_list_of_models models l)"
        unfolding all_indented_def
        using physical_lines_not_Nil [of "serialize_list_of_models models l"]
        by (cases "physical_lines (serialize_list_of_models models l)") simp_all
      then have "rest_indented l (NL # serialize_list_of_models models l)"
        by (rule rest_indented_NL)
      then show ?thesis using Some False by simp
    qed
  qed
qed (simp_all add: rest_indented_single)

subsection \<open>Blocks whose children take one line each\<close>

lemma record_flat_lines:
  assumes "fs \<noteq> []"
    and "\<forall>(name, v)\<in>set fs. NL \<notin> set name \<and> NL \<notin> set (serialize_value v (l + 1))"
  shows "physical_lines (serialize_object fs l)
     = map (\<lambda>(name, v). indent l @ name @ '': '' @ serialize_value v (l + 1)) fs"
proof -
  let ?line = "\<lambda>(name, v). indent l @ name @ '': '' @ serialize_value v (l + 1)"
  have "map (\<lambda>(field_name, val).
        (let serialized_val = serialize_value val (l + 1) in
         if NL \<in> set serialized_val
         then indent l @ field_name @ '':'' @ serialized_val
         else indent l @ field_name @ '': '' @ serialized_val)) fs = map ?line fs"
    using assms(2) by (induction fs) (auto simp: Let_def)
  then have "serialize_object fs l = join [NL] (map ?line fs)"
    unfolding serialize_object.simps by (rule arg_cong)
  moreover have "\<forall>x\<in>set (map ?line fs). NL \<notin> set x"
    using assms(2) NL_indent [of l] by auto
  ultimately show ?thesis
    using assms(1) by (simp add: physical_lines_join_single del: serialize_object.simps)
qed

lemma mapping_flat_lines:
  assumes "kvs \<noteq> []"
    and "\<forall>(key, v)\<in>set kvs. NL \<notin> set key \<and> NL \<notin> set (serialize_value v (l + 1))"
  shows "physical_lines (serialize_value (VDict kvs) l)
     = map (\<lambda>(key, v). indent l @ ''  '' @ key @ '': '' @ serialize_value v (l + 1)) kvs"
proof -
  let ?line = "\<lambda>(key, v). indent l @ ''  '' @ key @ '': '' @ serialize_value v (l + 1)"
  have "concat (map (\<lambda>(key, val).
        (let serialized_val = serialize_value val (l + 1) in
         if NL \<in> set serialized_val
         then [indent l @ ''  '' @ key @ '':'',
               indent l @ ''    '' @ serialized_val]
         else [indent l @ ''  '' @ key @ '': '' @ serialized_val])) kvs) = map ?line kvs"
    using assms(2) by (induction kvs) (auto simp: Let_def)
  then have "serialize_value (VDict kvs) l = join [NL] (map ?line kvs)"
    unfolding serialize_value.simps by (rule arg_cong)
  moreover have "\<forall>x\<in>set (map ?line kvs). NL \<notin> set x"
    using assms(2) NL_indent [of l] by auto
  ultimately show ?thesis
    using assms(1) by (simp add: physical_lines_join_single del: serialize_value.simps)
qed

section \<open>The claims\<close>

subsection \<open>C1\<close>

text \<open>
  C1 (Scenario A). The list of the two employee records, encoded at indentation level 0
  by the tabular encoder and by the public entry point, is the header
  \<^verbatim>\<open>[2]{id,name,department,salary}:\<close> and the two rows, each behind two spaces, joined
  by single newlines, with no newline at the end. The salaries are Python integers.
\<close>

theorem C1_scenario_A:
  "serialize_list_of_models
     [[(''id'', VInt 1), (''name'', VStr ''Alice''), (''department'', VStr ''Engineering''),
       (''salary'', VInt 120000)],
      [(''id'', VInt 2), (''name'', VStr ''Bob''), (''department'', VStr ''Marketing''),
       (''salary'', VInt 95000)]] 0
   = ''[2]{id,name,department,salary}:\<newline>  1,Alice,Engineering,120000\<newline>  2,Bob,Marketing,95000''
   \<and> serialize (VList
     [VModel [(''id'', VInt 1), (''name'', VStr ''Alice''), (''department'', VStr ''Engineering''),
       (''salary'', VInt 120000)],
      VModel [(''id'', VInt 2), (''name'', VStr ''Bob''), (''department'', VStr ''Marketing''),
       (''salary'', VInt 95000)]]) 0
   = Inr ''[2]{id,name,department,salary}:\<newline>  1,Alice,Engineering,120000\<newline>  2,Bob,Marketing,95000''"
  by (simp add: eval_defs)

subsection \<open>C2\<close>

text \<open>
  C2 (String Escaper). The encoding of a text is the text itself exactly when the text
  has no comma, no newline and equals its stripped form. Otherwise it is the text with
  every backslash doubled, then every double quote preceded by a backslash, between
  two double quotes; the commas of the text are all still there.
\<close>

theorem C2_string_escaper:
  "(serialize_value (VStr s) l = s \<longleftrightarrow> COMMA \<notin> set s \<and> NL \<notin> set s \<and> strip s = s)
   \<and> (COMMA \<in> set s \<or> NL \<in> set s \<or> strip s \<noteq> s \<longrightarrow>
        serialize_value (VStr s) l =
          [DQUOTE]
          @ concat (map (\<lambda>c. if c = DQUOTE then [BACKSLASH, DQUOTE] else [c])
              (concat (map (\<lambda>c. if c = BACKSLASH then [BACKSLASH, BACKSLASH] else [c]) s)))
          @ [DQUOTE]
        \<and> count_list (serialize_value (VStr s) l) COMMA = count_list s COMMA)"
  using quoted_neq [of s] count_quoted [of COMMA s] quoted_concat [of s]
  by (auto simp add: serialize_value_VStr simp del: serialize_value.simps)

text \<open>An instance of C2 on concrete values.\<close>

theorem C2_string_escaper_witness:
  "serialize_value (VStr ''Smith, John'') 0 = ''\"Smith, John\"''
   \<and> serialize_value (VStr [CHR ''a'', BACKSLASH, DQUOTE, CHR ''b'', COMMA]) 0 = [DQUOTE, CHR ''a'', BACKSLASH, BACKSLASH, BACKSLASH, DQUOTE, CHR ''b'', COMMA, DQUOTE]
   \<and> count_list (serialize_value (VStr ''Smith, John'') 0) COMMA = 1
   \<and> serialize_value (VStr ''Alice'') 0 = ''Alice''"
  using C2_string_escaper [of "''Smith, John''" 0] C2_string_escaper [of "''Alice''" 0]
    C2_string_escaper [of "[CHR ''a'', BACKSLASH, DQUOTE, CHR ''b'', COMMA]" 0]
  by (simp add: strip_def isspace_def)

subsection \<open>C3\<close>

text \<open>
  C3 as stated does not hold: the heterogeneous top-level list is not the only
  validated error. A value of another type, here a complex number, is not a list, and
  the public entry point fails on it.
\<close>

theorem C3_counterexample:
  "\<not> isList (VOther ''(3+4j)'')
   \<and> serialize (VOther ''(3+4j)'') 0 = Inl ValueError_unsupported_type"
  by simp

text \<open>
  C3 (Top-Level Dispatcher), as amended. A list with an element that is not a model
  fails with the first \<^verbatim>\<open>ValueError\<close>; a list of models never fails and is the
  tabular encoding at the given level (0 by default); a single model is the record
  encoding. There is a second validated error: an input that is neither a list nor a
  model fails with the second \<^verbatim>\<open>ValueError\<close>. Inside the value classifier a value
  of an unrecognized type is rendered by its default text and never fails.
\<close>

theorem C3_dispatcher:
  "(\<not> list_all isBaseModel xs \<longrightarrow> serialize (VList xs) l = Inl ValueError_items_not_models)
   \<and> (list_all isBaseModel xs \<longrightarrow>
        (\<exists>models. xs = map VModel models
           \<and> serialize (VList xs) l = Inr (serialize_list_of_models models l)))
   \<and> serialize (VModel fs) l = Inr (serialize_object fs l)
   \<and> (\<not> isList data \<and> \<not> isBaseModel data \<longrightarrow>
        serialize data l = Inl ValueError_unsupported_type)
   \<and> serialize_value (VOther s) l = s"
proof -
  have 1: "\<not> list_all isBaseModel xs \<longrightarrow> serialize (VList xs) l = Inl ValueError_items_not_models"
    using as_models_None_iff [of xs] by (cases "as_models xs") auto
  have 2: "list_all isBaseModel xs \<longrightarrow>
        (\<exists>models. xs = map VModel models
           \<and> serialize (VList xs) l = Inr (serialize_list_of_models models l))"
  proof
    assume "list_all isBaseModel xs"
    then obtain models where m: "as_models xs = Some models"
      using as_models_None_iff [of xs] by auto
    then have "xs = map VModel models" by (rule as_models_Some)
    with m show "\<exists>models. xs = map VModel models
           \<and> serialize (VList xs) l = Inr (serialize_list_of_models models l)"
      by auto
  qed
  have 4: "\<not> isList data \<and> \<not> isBaseModel data \<longrightarrow>
        serialize data l = Inl ValueError_unsupported_type"
    by (cases data) simp_all
  from 1 2 4 show ?thesis by simp
qed

text \<open>An instance of C3 on concrete values.\<close>

theorem C3_dispatcher_witness:
  "serialize (VList [VModel [(''a'', VInt 1)], VInt 2]) 0 = Inl ValueError_items_not_models
   \<and> serialize (VList [VModel [(''a'', VInt 1)]]) 0
       = Inr (serialize_list_of_models [[(''a'', VInt 1)]] 0)
   \<and> serialize (VStr ''abc'') 0 = Inl ValueError_unsupported_type
   \<and> serialize_value (VOther ''(3+4j)'') 0 = ''(3+4j)''"
  using C3_dispatcher [of "[VModel [(''a'', VInt 1)], VInt 2]" 0 "[]" "VStr ''abc''" "''(3+4j)''"]
    C3_dispatcher [of "[VModel [(''a'', VInt 1)]]" 0 "[]" "VStr ''abc''" "''(3+4j)''"]
  by auto

subsection \<open>C4\<close>

text \<open>
  C4 (Scenario D). The record encoder, on a field whose value is the mapping with the
  three keys, puts the first key on the line of \<^verbatim>\<open>metadata:\<close>: the text differs from
  the one of Scenario D, where \<^verbatim>\<open>metadata:\<close> stands alone on its line.
\<close>

theorem C4_scenario_D:
  "serialize_object
     [(''metadata'', VDict [(''key1'', VStr ''value1''), (''key2'', VInt 42), (''key3'', VBool True)])] 0
   = ''metadata:    key1: value1\<newline>    key2: 42\<newline>    key3: true''
   \<and> physical_lines (serialize_object
     [(''metadata'', VDict [(''key1'', VStr ''value1''), (''key2'', VInt 42), (''key3'', VBool True)])] 0)
   = [''metadata:    key1: value1'', ''    key2: 42'', ''    key3: true'']
   \<and> serialize_object
     [(''metadata'', VDict [(''key1'', VStr ''value1''), (''key2'', VInt 42), (''key3'', VBool True)])] 0
   \<noteq> ''metadata:\<newline>    key1: value1\<newline>    key2: 42\<newline>    key3: true''"
  by (simp add: eval_defs)

subsection \<open>C5\<close>

text \<open>
  C5 as stated does not hold, in two ways. The list of one record whose only field
  holds a text with a newline is encoded as a header and two physical row lines, not
  one. And a field value that is not a text keeps its commas unquoted: a list value
  \<^verbatim>\<open>[1, 2]\<close> gives the row \<^verbatim>\<open>1,[1,2]\<close>, and a value of another type whose default
  text is \<^verbatim>\<open>a,b\<close> gives the row \<^verbatim>\<open>1,a,b\<close>, neither cell being the quoted form; each
  of these rows of two fields holds two commas.
\<close>

theorem C5_counterexample:
  "physical_lines (serialize_list_of_models [[(''name'', VStr ''a\<newline>b'')]] 0)
     = [''[1]{name}:'', ''  \"a'', ''b\"'']
   \<and> length (physical_lines (serialize_list_of_models [[(''name'', VStr ''a\<newline>b'')]] 0))
     \<noteq> 1 + length [[(''name'', VStr ''a\<newline>b'')]]
   \<and> serialize_list_of_models [[(''id'', VInt 1), (''tags'', VList [VInt 1, VInt 2])]] 0
     = ''[1]{id,tags}:\<newline>  1,[1,2]''
   \<and> serialize_value (dump_value (VList [VInt 1, VInt 2])) 0 = ''[1,2]''
   \<and> serialize_list_of_models [[(''id'', VInt 1), (''url'', VOther ''a,b'')]] 0
     = ''[1]{id,url}:\<newline>  1,a,b''
   \<and> serialize_value (dump_value (VOther ''a,b'')) 0 = ''a,b''
   \<and> serialize_value (dump_value (VOther ''a,b'')) 0 \<noteq> quoted ''a,b''
   \<and> count_list (serialize_list_of_models [[(''id'', VInt 1), (''url'', VOther ''a,b'')]] 0)
        COMMA = 3"
  by (simp add: eval_defs quoted_def)

text \<open>
  C5 (tabular encoding), as amended. For a non-empty list of \<open>k\<close> models that all have
  the field names \<open>fs\<close> (distinct, as the fields of a record are), at a level
  \<open>l \<ge> 0\<close>, the output is the header \<^verbatim>\<open>[k]{f1,...,fn}:\<close> at level \<open>l\<close> followed by
  \<open>k\<close> rows, joined by newlines; the row of a model is at level \<open>l + 1\<close> and is the
  comma-joined encodings of its field values, one per field, in field order. Of the
  field values, a text with a comma is there in its quoted form, and a null, a
  boolean or an integer is encoded without a comma; the cell of a list, of a mapping
  or of a value rendered by its own text is not quoted, whatever commas it holds. The
  rows are \<open>k\<close> physical lines when no field name and no encoded value holds a
  newline; an encoded value with a newline breaks its row.
\<close>

theorem C5_tabular:
  assumes "ms \<noteq> []" and "\<forall>m\<in>set ms. map fst m = fs" and "distinct fs" and "0 \<le> l"
  shows
   "(let header = indent l @ ''['' @ str_int (int (length ms)) @ '']{'' @ join '','' fs @ ''}:'';
         rows = map (\<lambda>m. indent (l + 1)
                  @ join '','' (map (\<lambda>(name, v). serialize_value (dump_value v) 0) m)) ms
     in serialize_list_of_models ms l = join [NL] (header # rows)
        \<and> length rows = length ms
        \<and> (\<forall>m\<in>set ms.
              length (map (\<lambda>(name, v). serialize_value (dump_value v) 0) m) = length fs)
        \<and> (\<forall>m\<in>set ms. \<forall>(name, v)\<in>set m. \<forall>s.
              v = VStr s \<and> COMMA \<in> set s \<longrightarrow> serialize_value (dump_value v) 0 = quoted s)
        \<and> (\<forall>m\<in>set ms. \<forall>(name, v)\<in>set m. \<forall>b i.
              v = VNone \<or> v = VBool b \<or> v = VInt i \<longrightarrow>
              COMMA \<notin> set (serialize_value (dump_value v) 0))
        \<and> ((\<forall>f\<in>set fs. NL \<notin> set f)
            \<and> (\<forall>m\<in>set ms. \<forall>(name, v)\<in>set m. NL \<notin> set (serialize_value (dump_value v) 0))
            \<longrightarrow> physical_lines (serialize_list_of_models ms l) = header # rows))"
proof -
  define cell where "cell = (\<lambda>v. serialize_value (dump_value v) 0)"
  define header where
    "header = indent l @ ''['' @ str_int (int (length ms)) @ '']{'' @ join '','' fs @ ''}:''"
  define row where
    "row = (\<lambda>m :: fields. indent (l + 1) @ join '','' (map (\<lambda>(name, v). cell v) m))"
  obtain first_model rest where ms: "ms = first_model # rest"
    using assms(1) by (cases ms) auto
  have first: "map fst first_model = fs"
    using assms(2) ms by simp
  have row_eq: "indent l @ ''  '' @ join '','' (map (\<lambda>f. case map_of m f of None \<Rightarrow> ''null''
                  | Some v \<Rightarrow> cell v) (map fst first_model)) = row m"
    if "m \<in> set ms" for m
  proof -
    have m: "map fst m = fs" using assms(2) that by simp
    then have "distinct (map fst m)" using assms(3) by simp
    then have "map (\<lambda>f. case map_of m f of None \<Rightarrow> ''null'' | Some v \<Rightarrow> cell v) (map fst m)
        = map (\<lambda>(k, v). cell v) m"
      by (rule cells_in_order)
    then show ?thesis
      unfolding row_def using m first assms(4) by (simp only: indent_Suc append_assoc)
  qed
  have "serialize_list_of_models ms l
      = join [NL] (header # map (\<lambda>m. indent l @ ''  '' @ join '',''
           (map (\<lambda>f. case map_of m f of None \<Rightarrow> ''null'' | Some v \<Rightarrow> cell v)
              (map fst first_model))) ms)"
    unfolding ms header_def cell_def first [symmetric]
    using tabular_Cons [of first_model rest l] by simp
  also have "map (\<lambda>m. indent l @ ''  '' @ join '',''
           (map (\<lambda>f. case map_of m f of None \<Rightarrow> ''null'' | Some v \<Rightarrow> cell v)
              (map fst first_model))) ms = map row ms"
    by (rule map_cong [OF refl]) (rule row_eq)
  finally have out: "serialize_list_of_models ms l = join [NL] (header # map row ms)" .
  have lens: "\<forall>m\<in>set ms. length (map (\<lambda>(name, v). cell v) m) = length fs"
  proof
    fix m assume "m \<in> set ms"
    then have "map fst m = fs" using assms(2) by simp
    then have "length (map fst m) = length fs" by simp
    then show "length (map (\<lambda>(name, v). cell v) m) = length fs" by simp
  qed
  have commas: "\<forall>m\<in>set ms. \<forall>(name, v)\<in>set m. \<forall>s.
      v = VStr s \<and> COMMA \<in> set s \<longrightarrow> cell v = quoted s"
    unfolding cell_def by (auto simp: quoted_def)
  have scalars: "\<forall>m\<in>set ms. \<forall>(name, v)\<in>set m. \<forall>b i.
      v = VNone \<or> v = VBool b \<or> v = VInt i \<longrightarrow> COMMA \<notin> set (cell v)"
    unfolding cell_def using COMMA_str_int by auto
  have phys: "physical_lines (serialize_list_of_models ms l) = header # map row ms"
    if names: "\<forall>f\<in>set fs. NL \<notin> set f"
      and cells: "\<forall>m\<in>set ms. \<forall>(name, v)\<in>set m. NL \<notin> set (cell v)"
  proof -
    have "NL \<notin> set (join '','' fs)" using names by (rule NL_join_comma)
    then have h: "NL \<notin> set header"
      unfolding header_def using NL_indent [of l] NL_str_int [of "int (length ms)"] by simp
    have r: "NL \<notin> set (row m)" if "m \<in> set ms" for m
    proof -
      have "\<forall>x\<in>set (map (\<lambda>(name, v). cell v) m). NL \<notin> set x"
        using cells that by auto
      then have "NL \<notin> set (join '','' (map (\<lambda>(name, v). cell v) m))"
        by (rule NL_join_comma)
      then show ?thesis unfolding row_def using NL_indent [of "l + 1"] by simp
    qed
    have "\<forall>x\<in>set (header # map row ms). NL \<notin> set x"
      using h r by auto
    then have "physical_lines (join [NL] (header # map row ms)) = header # map row ms"
      by (intro physical_lines_join_single) simp_all
    then show ?thesis by (simp only: out)
  qed
  have count: "length (map row ms) = length ms" by simp
  show ?thesis
    unfolding Let_def using out count lens commas scalars phys
    unfolding header_def row_def cell_def by blast
qed

text \<open>An instance of C5 on concrete values.\<close>

theorem C5_tabular_witness:
  "serialize_list_of_models
     [[(''id'', VInt 1), (''name'', VStr ''Smith, John'')],
      [(''id'', VInt 2), (''name'', VStr ''Bob'')]] 0
   = ''[2]{id,name}:\<newline>  1,\"Smith, John\"\<newline>  2,Bob''
   \<and> physical_lines (serialize_list_of_models
     [[(''id'', VInt 1), (''name'', VStr ''Smith, John'')],
      [(''id'', VInt 2), (''name'', VStr ''Bob'')]] 0)
   = [''[2]{id,name}:'', ''  1,\"Smith, John\"'', ''  2,Bob'']"
proof -
  let ?ms = "[[(''id'', VInt 1), (''name'', VStr ''Smith, John'')],
      [(''id'', VInt 2), (''name'', VStr ''Bob'')]]"
  have 1: "?ms \<noteq> []" by simp
  have 2: "\<forall>m\<in>set ?ms. map fst m = [''id'', ''name'']" by simp
  have 3: "distinct [''id'', ''name'']" by simp
  have 4: "(0::int) \<le> 0" by simp
  from C5_tabular [OF 1 2 3 4] show ?thesis
    by (simp add: Let_def eval_defs del: serialize_list_of_models.simps)
qed

subsection \<open>C6\<close>

text \<open>
  C6 (empty list). A list with no element is encoded as \<^verbatim>\<open>[]\<close> without failing: as
  the input of the public entry point, by the tabular encoder, by the value classifier
  at any level, and as the value of a record's field. The declared element type of a
  list leaves no trace in an empty list.
\<close>

theorem C6_empty_list:
  "serialize (VList []) l = Inr ''[]''
   \<and> serialize_list_of_models [] l = ''[]''
   \<and> serialize_value (VList []) l = ''[]''
   \<and> serialize (VModel [(name, VList [])]) l = Inr (indent l @ name @ '': []'')"
  by simp

subsection \<open>C7\<close>

text \<open>
  C7 as stated does not hold: the public entry point, applied to the plain string
  \<^verbatim>\<open>hello\<close>, does not return it but fails with \<^verbatim>\<open>ValueError\<close>.
\<close>

theorem C7_counterexample:
  "COMMA \<notin> set ''hello'' \<and> NL \<notin> set ''hello'' \<and> strip ''hello'' = ''hello''
   \<and> serialize (VStr ''hello'') 0 \<noteq> Inr ''hello''
   \<and> serialize (VStr ''hello'') 0 = Inl ValueError_unsupported_type"
  by (simp add: strip_def isspace_def)

text \<open>
  C7 (plain strings), as amended. For a string with no comma, no newline and no
  surrounding whitespace the value classifier returns the string itself at every
  level, and a record holding it in a field is encoded as the field's name, a colon, a
  space and the string. The public entry point does not take a bare string: it fails
  with \<^verbatim>\<open>ValueError\<close>.
\<close>

theorem C7_plain_string:
  assumes "COMMA \<notin> set s" and "NL \<notin> set s" and "strip s = s"
  shows "serialize_value (VStr s) l = s
   \<and> serialize (VModel [(name, VStr s)]) l = Inr (indent l @ name @ '': '' @ s)
   \<and> serialize (VStr s) l = Inl ValueError_unsupported_type"
  using assms by simp

text \<open>An instance of C7 on concrete values.\<close>

theorem C7_plain_string_witness:
  "serialize_value (VStr ''Alice'') 0 = ''Alice''
   \<and> serialize (VModel [(''name'', VStr ''Alice'')]) 0 = Inr ''name: Alice''
   \<and> serialize (VStr ''Alice'') 0 = Inl ValueError_unsupported_type"
proof -
  have "COMMA \<notin> set ''Alice''" and "NL \<notin> set ''Alice''" and "strip ''Alice'' = ''Alice''"
    by (simp_all add: strip_def isspace_def)
  from C7_plain_string [OF this, of 0 "''name''"] show ?thesis
    by (simp add: indent_def)
qed

subsection \<open>C8\<close>

text \<open>
  C8 as stated does not hold. The first line of a multi-line child follows the prefix
  of its parent, so the keys \<^verbatim>\<open>x\<close> and \<^verbatim>\<open>y\<close> of one mapping stand behind twelve
  and six spaces; and the second line of a text with a newline, in a record at level
  1, stands behind no space at all.
\<close>

theorem C8_counterexample:
  "physical_lines (serialize_object
      [(''m'', VDict [(''a'', VDict [(''x'', VInt 1), (''y'', VInt 2)])])] 0)
     = [''m:    a:'', ''            x: 1'', ''      y: 2'']
   \<and> physical_lines (serialize_object [(''s'', VStr ''a\<newline>b'')] 1) = [''  s:\"a'', ''b\"'']
   \<and> \<not> list_all (indented 1) (physical_lines (serialize_object [(''s'', VStr ''a\<newline>b'')] 1))"
  by (simp add: eval_defs indented_def)

text \<open>
  C8 (indentation), as amended. At a level \<open>l \<ge> 0\<close>, for an input in which no text,
  name or key holds a newline and the cells of rows and the items of flat lists are
  encoded on one line:
  \<^item> every line of a record block at level \<open>l\<close> begins with the \<open>2 * l\<close> spaces of the
    level; when each field value takes one line, the lines are exactly those spaces,
    the field's name, a colon, a space and the value;
  \<^item> every line of a mapping block encoded at level \<open>l\<close> begins with \<open>2 * l + 2\<close>
    spaces; when each value takes one line, the lines are exactly those spaces, the
    key, a colon, a space and the value;
  \<^item> the header of a tabular block at level \<open>l\<close> begins with \<open>2 * l\<close> spaces and its
    rows, one per model, with \<open>2 * l + 2\<close>.
\<close>

theorem C8_indentation:
  assumes "0 \<le> l"
  shows
   "(no_line_breaks (VModel fs) \<and> fs \<noteq> [] \<longrightarrow>
       list_all (indented l) (physical_lines (serialize_object fs l)))
    \<and> (fs \<noteq> [] \<and> list_all (\<lambda>(name, v).
           NL \<notin> set name \<and> NL \<notin> set (serialize_value v (l + 1))) fs \<longrightarrow>
         physical_lines (serialize_object fs l)
         = map (\<lambda>(name, v). indent l @ name @ '': '' @ serialize_value v (l + 1)) fs)
    \<and> (no_line_breaks (VDict kvs) \<and> kvs \<noteq> [] \<longrightarrow>
         list_all (indented (l + 1)) (physical_lines (serialize_value (VDict kvs) l)))
    \<and> (kvs \<noteq> [] \<and> list_all (\<lambda>(key, v).
           NL \<notin> set key \<and> NL \<notin> set (serialize_value v (l + 1))) kvs \<longrightarrow>
         physical_lines (serialize_value (VDict kvs) l)
         = map (\<lambda>(key, v). indent (l + 1) @ key @ '': '' @ serialize_value v (l + 1)) kvs)
    \<and> (no_line_breaks (VList (map VModel ms)) \<and> ms \<noteq> [] \<longrightarrow>
         indented l (hd (physical_lines (serialize_list_of_models ms l)))
         \<and> list_all (indented (l + 1)) (tl (physical_lines (serialize_list_of_models ms l)))
         \<and> length (tl (physical_lines (serialize_list_of_models ms l))) = length ms)"
proof (intro conjI impI)
  assume a: "no_line_breaks (VModel fs) \<and> fs \<noteq> []"
  have "\<forall>(name, v)\<in>set fs.
      NL \<notin> set name \<and> rest_indented (l + 1) (serialize_value v (l + 1))"
    using a assms later_lines_indented [of _ "l + 1"] by (auto simp: list_all_iff)
  with assms a have "all_indented l (serialize_object fs l)"
    by (intro record_block_indented) simp_all
  then show "list_all (indented l) (physical_lines (serialize_object fs l))"
    by (simp only: all_indented_def)
next
  assume "fs \<noteq> [] \<and> list_all (\<lambda>(name, v).
           NL \<notin> set name \<and> NL \<notin> set (serialize_value v (l + 1))) fs"
  then show "physical_lines (serialize_object fs l)
         = map (\<lambda>(name, v). indent l @ name @ '': '' @ serialize_value v (l + 1)) fs"
    by (intro record_flat_lines) (simp_all add: list_all_iff)
next
  assume a: "no_line_breaks (VDict kvs) \<and> kvs \<noteq> []"
  have "\<forall>(key, v)\<in>set kvs.
      NL \<notin> set key \<and> rest_indented (l + 1) (serialize_value v (l + 1))"
    using a assms later_lines_indented [of _ "l + 1"] by (auto simp: list_all_iff)
  with assms a have "all_indented (l + 1) (serialize_value (VDict kvs) l)"
    by (intro mapping_block_indented) simp_all
  then show "list_all (indented (l + 1)) (physical_lines (serialize_value (VDict kvs) l))"
    by (simp only: all_indented_def)
next
  assume "kvs \<noteq> [] \<and> list_all (\<lambda>(key, v).
           NL \<notin> set key \<and> NL \<notin> set (serialize_value v (l + 1))) kvs"
  then have "physical_lines (serialize_value (VDict kvs) l)
     = map (\<lambda>(key, v). indent l @ ''  '' @ key @ '': '' @ serialize_value v (l + 1)) kvs"
    by (intro mapping_flat_lines) (simp_all add: list_all_iff)
  then show "physical_lines (serialize_value (VDict kvs) l)
         = map (\<lambda>(key, v). indent (l + 1) @ key @ '': '' @ serialize_value v (l + 1)) kvs"
    using assms by (simp only: indent_Suc append_assoc)
next
  assume a: "no_line_breaks (VList (map VModel ms)) \<and> ms \<noteq> []"
  then have cells: "list_all (list_all (\<lambda>(name, v).
            NL \<notin> set name \<and> NL \<notin> set (serialize_value (dump_value v) 0))) ms"
    by (simp add: as_models_map_VModel)
  from a have ne: "ms \<noteq> []" by simp
  note t = tabular_block_indented [OF assms ne cells]
  from t show "indented l (hd (physical_lines (serialize_list_of_models ms l)))" by simp
  from t show "list_all (indented (l + 1)) (tl (physical_lines (serialize_list_of_models ms l)))"
    by simp
  from t show "length (tl (physical_lines (serialize_list_of_models ms l))) = length ms" by simp
qed

text \<open>An instance of C8 on concrete values.\<close>

theorem C8_indentation_witness:
  "list_all (indented 1) (physical_lines (serialize_object
      [(''id'', VInt 7),
       (''meta'', VDict [(''k'', VStr ''v''), (''n'', VDict [(''x'', VInt 1), (''y'', VInt 2)])]),
       (''staff'', VList [VModel [(''a'', VInt 1)], VModel [(''a'', VInt 2)]])] 1))
   \<and> physical_lines (serialize_object [(''id'', VInt 7), (''name'', VStr ''Ann'')] 1)
     = [''  id: 7'', ''  name: Ann'']
   \<and> list_all (indented 2) (physical_lines (serialize_value
        (VDict [(''k'', VStr ''v''), (''n'', VDict [(''x'', VInt 1), (''y'', VInt 2)])]) 1))
   \<and> physical_lines (serialize_value (VDict [(''k'', VStr ''v''), (''j'', VInt 3)]) 1)
     = [''    k: v'', ''    j: 3'']
   \<and> indented 1 (hd (physical_lines (serialize_list_of_models
        [[(''a'', VInt 1)], [(''a'', VInt 2)]] 1)))
   \<and> list_all (indented 2) (tl (physical_lines (serialize_list_of_models
        [[(''a'', VInt 1)], [(''a'', VInt 2)]] 1)))"
proof -
  have l: "(0::int) \<le> 1" by simp
  let ?nested = "VDict [(''k'', VStr ''v''), (''n'', VDict [(''x'', VInt 1), (''y'', VInt 2)])]"
  let ?ms = "[[(''a'', VInt 1)], [(''a'', VInt 2)]]"
  let ?fs = "[(''id'', VInt 7), (''meta'', ?nested), (''staff'', VList (map VModel ?ms))]"
  have deep: "no_line_breaks (VModel ?fs) \<and> ?fs \<noteq> []"
    by (simp add: eval_defs)
  have nested: "no_line_breaks ?nested" by simp
  have rows: "no_line_breaks (VList (map VModel ?ms)) \<and> ?ms \<noteq> []"
    by (simp add: eval_defs)
  have flat_r: "[(''id'', VInt 7), (''name'', VStr ''Ann'')] \<noteq> []
      \<and> list_all (\<lambda>(name, v). NL \<notin> set name \<and> NL \<notin> set (serialize_value v (1 + 1)))
          [(''id'', VInt 7), (''name'', VStr ''Ann'')]"
    by (simp add: eval_defs)
  have flat_m: "[(''k'', VStr ''v''), (''j'', VInt 3)] \<noteq> []
      \<and> list_all (\<lambda>(key, v). NL \<notin> set key \<and> NL \<notin> set (serialize_value v (1 + 1)))
          [(''k'', VStr ''v''), (''j'', VInt 3)]"
    by (simp add: eval_defs)
  from C8_indentation [OF l, of ?fs "[(''k'', VStr ''v''), (''n'', VDict [(''x'', VInt 1), (''y'', VInt 2)])]" ?ms]
    deep nested rows
  have 1: "list_all (indented 1) (physical_lines (serialize_object ?fs 1))"
    and 3: "list_all (indented (1 + 1)) (physical_lines (serialize_value ?nested 1))"
    and 5: "indented 1 (hd (physical_lines (serialize_list_of_models ?ms 1)))"
    and 6: "list_all (indented (1 + 1)) (tl (physical_lines (serialize_list_of_models ?ms 1)))"
    by blast+
  from C8_indentation [OF l, of "[(''id'', VInt 7), (''name'', VStr ''Ann'')]"
      "[(''k'', VStr ''v''), (''j'', VInt 3)]" "[]"] flat_r flat_m
  have 2: "physical_lines (serialize_object [(''id'', VInt 7), (''name'', VStr ''Ann'')] 1)
      = map (\<lambda>(name, v). indent 1 @ name @ '': '' @ serialize_value v (1 + 1))
          [(''id'', VInt 7), (''name'', VStr ''Ann'')]"
    and 4: "physical_lines (serialize_value (VDict [(''k'', VStr ''v''), (''j'', VInt 3)]) 1)
      = map (\<lambda>(key, v). indent (1 + 1) @ key @ '': '' @ serialize_value v (1 + 1))
          [(''k'', VStr ''v''), (''j'', VInt 3)]"
    by blast+
  have r2: "physical_lines (serialize_object [(''id'', VInt 7), (''name'', VStr ''Ann'')] 1)
     = [''  id: 7'', ''  name: Ann'']"
    unfolding 2 by (simp add: eval_defs)
  have m4: "physical_lines (serialize_value (VDict [(''k'', VStr ''v''), (''j'', VInt 3)]) 1)
     = [''    k: v'', ''    j: 3'']"
    unfolding 4 by (simp add: eval_defs)
  from 1 r2 3 m4 5 6 show ?thesis
    by (simp del: serialize_value.simps serialize_object.simps serialize_list_of_models.simps)
qed

subsection \<open>C9\<close>

text \<open>
  C9 (rows follow the first element). For a non-empty list of models the header names
  the fields of the first model only, with the number of models. The row of every
  model holds, for each of those names in order, the encoding of the model's value
  under that name, or \<^verbatim>\<open>null\<close> when the model has no such field. Fields of a later
  model that the first one lacks do not reach the output, and the public entry point
  returns the text without an error, whatever the fields of the models are.
\<close>

theorem C9_first_model_fields:
  "serialize_list_of_models (first_model # rest) l
   = join [NL]
       ((indent l @ ''['' @ str_int (int (Suc (length rest))) @ '']{''
           @ join '','' (map fst first_model) @ ''}:'')
        # map (\<lambda>m. indent l @ ''  '' @ join '',''
                 (map (\<lambda>f. case map_of m f of None \<Rightarrow> ''null''
                            | Some v \<Rightarrow> serialize_value (dump_value v) 0)
                    (map fst first_model)))
            (first_model # rest))
   \<and> serialize_list_of_models
        (first_model # map (filter (\<lambda>(k, v). k \<in> set (map fst first_model))) rest) l
     = serialize_list_of_models (first_model # rest) l
   \<and> serialize (VList (map VModel (first_model # rest))) l
     = Inr (serialize_list_of_models (first_model # rest) l)"
proof -
  define row where "row = (\<lambda>m. indent l @ ''  '' @ join '',''
                 (map (\<lambda>f. case map_of m f of None \<Rightarrow> ''null''
                            | Some v \<Rightarrow> serialize_value (dump_value v) 0)
                    (map fst first_model)))"
  define header where "header = (\<lambda>n. indent l @ ''['' @ str_int (int (Suc n)) @ '']{''
           @ join '','' (map fst first_model) @ ''}:'')"
  define keep where "keep = filter (\<lambda>(k, v :: pyval). k \<in> set (map fst first_model))"
  have unfolded: "serialize_list_of_models (first_model # ms) l
      = join [NL] (header (length ms) # map row (first_model # ms))" for ms
    unfolding row_def header_def by (rule tabular_Cons)
  have "row (keep m) = row m" for m
    unfolding row_def keep_def by (simp only: row_filter)
  then have rows: "map row (map keep rest) = map row rest" by simp
  have "serialize_list_of_models (first_model # map keep rest) l
     = serialize_list_of_models (first_model # rest) l"
    by (simp only: unfolded length_map list.map rows)
  then show ?thesis
    using tabular_Cons [of first_model rest l] serialize_models [of "first_model # rest" l]
    unfolding keep_def
    by (simp del: serialize_list_of_models.simps serialize.simps)
qed

text \<open>An instance of C9 on concrete values.\<close>

theorem C9_first_model_fields_witness:
  "serialize_list_of_models
     [[(''a'', VInt 1), (''b'', VInt 2)], [(''b'', VInt 3), (''c'', VInt 4)]] 0
   = ''[2]{a,b}:\<newline>  1,2\<newline>  null,3''
   \<and> serialize (VList [VModel [(''a'', VInt 1), (''b'', VInt 2)],
                       VModel [(''b'', VInt 3), (''c'', VInt 4)]]) 0
   = Inr ''[2]{a,b}:\<newline>  1,2\<newline>  null,3''"
  using C9_first_model_fields [of "[(''a'', VInt 1), (''b'', VInt 2)]"
      "[[(''b'', VInt 3), (''c'', VInt 4)]]" 0]
  by (simp add: eval_defs del: serialize_list_of_models.simps serialize.simps)

subsection \<open>C10\<close>

text \<open>
  C10 (newline in a string). A string with a newline is encoded between two double
  quotes, only its backslashes and double quotes being replaced: the newlines are all
  still there, inside the quotes, and the encoding spans more than one physical line.
\<close>

theorem C10_newline_kept:
  assumes "NL \<in> set s"
  shows "serialize_value (VStr s) l =
          [DQUOTE]
          @ concat (map (\<lambda>c. if c = DQUOTE then [BACKSLASH, DQUOTE] else [c])
              (concat (map (\<lambda>c. if c = BACKSLASH then [BACKSLASH, BACKSLASH] else [c]) s)))
          @ [DQUOTE]
   \<and> NL \<in> set (butlast (tl (serialize_value (VStr s) l)))
   \<and> count_list (serialize_value (VStr s) l) NL = count_list s NL
   \<and> 1 < length (physical_lines (serialize_value (VStr s) l))"
proof -
  have q: "serialize_value (VStr s) l = quoted s"
    using assms by (simp add: serialize_value_VStr del: serialize_value.simps)
  have c: "count_list (quoted s) NL = count_list s NL"
    by (simp add: count_quoted)
  have pos: "0 < count_list s NL"
    using assms by (simp add: count_list_0_iff zero_less_iff_neq_zero)
  have "count_list (butlast (tl (quoted s))) NL = count_list s NL"
    by (simp add: quoted_def count_replace)
  with pos have inside: "NL \<in> set (butlast (tl (quoted s)))"
    by (metis count_list_0_iff less_numeral_extra(3))
  have len: "1 < length (physical_lines (quoted s))"
    using c pos by (simp add: length_physical_lines)
  show ?thesis
    unfolding q using c inside len quoted_concat [of s] by blast
qed

text \<open>An instance of C10 on concrete values.\<close>

theorem C10_newline_kept_witness:
  "serialize_value (VStr ''a\<newline>b'') 0 = ''\"a\<newline>b\"''
   \<and> physical_lines (serialize_value (VStr ''a\<newline>b'') 0) = [''\"a'', ''b\"'']"
proof -
  have "NL \<in> set ''a\<newline>b''" by simp
  from C10_newline_kept [OF this, of 0] show ?thesis by simp
qed

end
